theory Spec2Isabelle
  imports Complex_Main
begin

section \<open>The keyframe script of \<^verbatim>\<open>Assignment6/headers/script.h\<close>\<close>

text \<open>
  Class \<^verbatim>\<open>Script\<close> holds a \<^verbatim>\<open>std::list<Frame>\<close>, an iterator into it and an
  \<^verbatim>\<open>int\<close> ordinal. Every member function is embedded below as a function on a record
  of these three fields. A \<^verbatim>\<open>Frame\<close> is opaque: the type variable \<open>'f\<close>.

  What C++ leaves undefined (moving an iterator off the list, dereferencing
  \<^verbatim>\<open>end()\<close>, signed overflow) is a value of type \<open>fault\<close>: a member function returns
  \<open>Inl\<close> of the fault, or \<open>Inr\<close> of the new state. The output on \<^verbatim>\<open>cout\<close> is advisory
  and is left out. \<^verbatim>\<open>showFrameInScene\<close> acts on the scene graph only; a member function
  returns, beside the new state, the list of frames it has shown, in order.
\<close>

subsection \<open>Faults\<close>

datatype fault =
    DecrementBegin   \<comment> \<open>\<^verbatim>\<open>--\<close> on \<^verbatim>\<open>begin()\<close>\<close>
  | IncrementEnd     \<comment> \<open>\<^verbatim>\<open>++\<close> on \<^verbatim>\<open>end()\<close>\<close>
  | DerefEnd         \<comment> \<open>\<^verbatim>\<open>*\<close> or \<^verbatim>\<open>->\<close> on \<^verbatim>\<open>end()\<close>\<close>
  | EraseEnd         \<comment> \<open>\<^verbatim>\<open>erase\<close> of \<^verbatim>\<open>end()\<close>\<close>
  | SignedOverflow   \<comment> \<open>\<^verbatim>\<open>++\<close> or \<^verbatim>\<open>--\<close> of an \<^verbatim>\<open>int\<close> beyond its range\<close>

definition bind_res :: "fault + 'a \<Rightarrow> ('a \<Rightarrow> fault + 'b) \<Rightarrow> fault + 'b" where
  "bind_res r k = (case r of Inl e \<Rightarrow> Inl e | Inr x \<Rightarrow> k x)"

subsection \<open>Machine integers\<close>

text \<open>
  \<^verbatim>\<open>int\<close> is 32 bits wide, \<^verbatim>\<open>size_t\<close> is unsigned and 64 bits wide (LP64). Values are
  integers of HOL; the wrap-around of \<^verbatim>\<open>size_t\<close> arithmetic and the conversions between
  the two types are written out. In \<^verbatim>\<open>currFrameNum < frames.size() - 2\<close> the \<^verbatim>\<open>int\<close> is
  converted to \<^verbatim>\<open>size_t\<close> and the subtraction wraps.
\<close>

definition INT_MAX :: int where
  "INT_MAX = 2147483647"

definition INT_MIN :: int where
  "INT_MIN = - 2147483648"

definition to_size_t :: "int \<Rightarrow> int" where
  "to_size_t c = c mod 2 ^ 64"

definition size_sub :: "int \<Rightarrow> int \<Rightarrow> int" where
  "size_sub a b = (a - b) mod 2 ^ 64"

definition to_int :: "int \<Rightarrow> int" where
  "to_int n = (n + 2 ^ 31) mod 2 ^ 32 - 2 ^ 31"

definition int_incr :: "int \<Rightarrow> fault + int" where
  "int_incr c = (if c < INT_MAX then Inr (c + 1) else Inl SignedOverflow)"

definition int_decr :: "int \<Rightarrow> fault + int" where
  "int_decr c = (if INT_MIN < c then Inr (c - 1) else Inl SignedOverflow)"

subsection \<open>\<^verbatim>\<open>std::list\<close> and its iterators\<close>

text \<open>
  The list is a HOL list. An iterator is the position of its node: \<open>0\<close> is
  \<^verbatim>\<open>begin()\<close>, the length of the list is \<^verbatim>\<open>end()\<close>. Iterators of a \<^verbatim>\<open>std::list\<close> stay on
  their node when other nodes are inserted or erased, so \<open>after_erase\<close> and
  \<open>after_insert\<close> give the new position of an iterator that was held across the call.
  \<^verbatim>\<open>size()\<close> is the number of elements.
\<close>

definition list_size :: "'a list \<Rightarrow> int" where
  "list_size xs = int (length xs)"

definition list_begin :: "'a list \<Rightarrow> nat" where
  "list_begin xs = 0"

definition list_end :: "'a list \<Rightarrow> nat" where
  "list_end xs = length xs"

definition it_incr :: "'a list \<Rightarrow> nat \<Rightarrow> fault + nat" where
  "it_incr xs i = (if i < length xs then Inr (Suc i) else Inl IncrementEnd)"

definition it_decr :: "'a list \<Rightarrow> nat \<Rightarrow> fault + nat" where
  "it_decr xs i = (if 0 < i then Inr (i - 1) else Inl DecrementBegin)"

definition it_deref :: "'a list \<Rightarrow> nat \<Rightarrow> fault + 'a" where
  "it_deref xs i = (if i < length xs then Inr (xs ! i) else Inl DerefEnd)"

definition it_assign :: "'a list \<Rightarrow> nat \<Rightarrow> 'a \<Rightarrow> fault + 'a list" where
  "it_assign xs i x = (if i < length xs then Inr (xs[i := x]) else Inl DerefEnd)"

definition list_erase :: "'a list \<Rightarrow> nat \<Rightarrow> fault + 'a list" where
  "list_erase xs i = (if i < length xs then Inr (take i xs @ drop (Suc i) xs) else Inl EraseEnd)"

definition after_erase :: "nat \<Rightarrow> nat \<Rightarrow> nat" where
  \<comment> \<open>position, once the node at \<open>i\<close> is erased, of an iterator that stood at \<open>p\<close>\<close>
  "after_erase i p = (if i < p then p - 1 else p)"

definition list_insert :: "'a list \<Rightarrow> nat \<Rightarrow> 'a \<Rightarrow> 'a list" where
  \<comment> \<open>\<^verbatim>\<open>insert(pos, x)\<close> puts \<open>x\<close> before \<open>pos\<close>\<close>
  "list_insert xs pos x = take pos xs @ [x] @ drop pos xs"

definition after_insert :: "nat \<Rightarrow> nat \<Rightarrow> nat" where
  \<comment> \<open>position, once a node is inserted before \<open>pos\<close>, of an iterator that stood at \<open>p\<close>\<close>
  "after_insert pos p = (if pos \<le> p then Suc p else p)"

subsection \<open>The class\<close>

record 'f script =
  frames :: "'f list"
  iter :: nat
  currFrameNum :: int

type_synonym 'f shown = "'f script \<times> 'f list"

definition Script_empty :: "'f script" where
  \<comment> \<open>\<^verbatim>\<open>Script()\<close>\<close>
  "Script_empty = \<lparr>frames = [], iter = list_begin ([] :: 'f list), currFrameNum = 0\<rparr>"

definition Script_from :: "'f list \<Rightarrow> 'f script" where
  \<comment> \<open>\<^verbatim>\<open>Script(list<Frame> initial_frames)\<close>\<close>
  "Script_from initial_frames =
     \<lparr>frames = initial_frames, iter = list_begin initial_frames, currFrameNum = 0\<rparr>"

definition defined :: "'f script \<Rightarrow> bool \<times> 'f script" where
  "defined s =
     (if list_size (frames s) = 0
      then (False, s\<lparr>iter := list_begin (frames s), currFrameNum := 0\<rparr>)
      else (iter s \<noteq> list_end (frames s), s))"

definition getNumberOfKeyframes :: "'f script \<Rightarrow> int" where
  "getNumberOfKeyframes s = to_int (list_size (frames s))"

definition advanceIter :: "'f script \<Rightarrow> fault + 'f script" where
  "advanceIter s =
     bind_res (it_incr (frames s) (iter s)) (\<lambda>i.
     bind_res (int_incr (currFrameNum s)) (\<lambda>c.
     Inr (s\<lparr>iter := i, currFrameNum := c\<rparr>)))"

definition regressIter :: "'f script \<Rightarrow> fault + 'f script" where
  "regressIter s =
     bind_res (it_decr (frames s) (iter s)) (\<lambda>i.
     bind_res (int_decr (currFrameNum s)) (\<lambda>c.
     Inr (s\<lparr>iter := i, currFrameNum := c\<rparr>)))"

definition canAnimate :: "'f script \<Rightarrow> bool \<times> 'f script" where
  "canAnimate s =
     (case defined s of (d, s1) \<Rightarrow>
        (d \<and> to_size_t (currFrameNum s1) < size_sub (list_size (frames s1)) 2, s1))"

definition showFrameInScene :: "'f script \<Rightarrow> fault + 'f shown" where
  \<comment> \<open>\<^verbatim>\<open>iter->showFrameInScene()\<close>\<close>
  "showFrameInScene s =
     bind_res (it_deref (frames s) (iter s)) (\<lambda>f. Inr (s, [f]))"

definition showCurrentFrameInScene :: "'f script \<Rightarrow> fault + 'f shown" where
  "showCurrentFrameInScene s =
     (case defined s of (d, s1) \<Rightarrow>
        if d then showFrameInScene s1 else Inr (s1, []))"

definition advanceCurrentFrame :: "'f script \<Rightarrow> fault + 'f shown" where
  "advanceCurrentFrame s =
     (case defined s of (d, s1) \<Rightarrow>
        if d \<and> to_size_t (currFrameNum s1) < size_sub (list_size (frames s1)) 1
        then bind_res (advanceIter s1) showFrameInScene
        else Inr (s1, []))"

definition regressCurrentFrame :: "'f script \<Rightarrow> fault + 'f shown" where
  "regressCurrentFrame s =
     (case defined s of (d, s1) \<Rightarrow>
        if d then
          if iter s1 \<noteq> list_begin (frames s1)
          then bind_res (regressIter s1) showFrameInScene
          else Inr (s1, [])
        else Inr (s1, []))"

definition goToBeginning :: "'f script \<Rightarrow> fault + 'f shown" where
  "goToBeginning s =
     (case defined (s\<lparr>iter := list_begin (frames s), currFrameNum := 0\<rparr>) of (d, s1) \<Rightarrow>
        if d then showFrameInScene s1 else Inr (s1, []))"

definition deleteCurrentFrame :: "'f script \<Rightarrow> fault + 'f shown" where
  "deleteCurrentFrame s =
     (case defined s of (d, s1) \<Rightarrow>
        if d then
          bind_res (if iter s1 = list_begin (frames s1)
                    then it_incr (frames s1) (iter s1)
                    else it_decr (frames s1) (iter s1)) (\<lambda>temp.
          bind_res (list_erase (frames s1) (iter s1)) (\<lambda>fs.
          showFrameInScene (s1\<lparr>frames := fs, iter := after_erase (iter s1) temp\<rparr>)))
        else Inr (s1, []))"

definition createNewFrameFromSceneAfterCurrentFrame ::
    "'f \<Rightarrow> 'f script \<Rightarrow> fault + 'f shown" where
  \<comment> \<open>the first argument is the frame \<^verbatim>\<open>Frame(rootNode)\<close> captured from the scene\<close>
  "createNewFrameFromSceneAfterCurrentFrame frame s =
     (case defined s of (d, s1) \<Rightarrow>
        bind_res
          (if d then
             bind_res (it_incr (frames s1) (iter s1)) (\<lambda>i1.
             let fs = list_insert (frames s1) i1 frame in
             bind_res (it_decr fs (after_insert i1 i1)) (\<lambda>i2.
             bind_res (int_incr (currFrameNum s1)) (\<lambda>c.
             Inr (s1\<lparr>frames := fs, iter := i2, currFrameNum := c\<rparr>))))
           else
             let fs = frames s1 @ [frame] in
             Inr (s1\<lparr>frames := fs, iter := list_begin fs, currFrameNum := 0\<rparr>))
          showFrameInScene)"

definition replaceCurrentFrameFromScene :: "'f \<Rightarrow> 'f script \<Rightarrow> fault + 'f shown" where
  "replaceCurrentFrameFromScene frame s =
     (case defined s of (d, s1) \<Rightarrow>
        if d then
          bind_res (it_assign (frames s1) (iter s1) frame) (\<lambda>fs.
          showFrameInScene (s1\<lparr>frames := fs\<rparr>))
        else createNewFrameFromSceneAfterCurrentFrame frame s1)"

definition interpolate ::
    "('f \<Rightarrow> 'f \<Rightarrow> 'f \<Rightarrow> 'f \<Rightarrow> 'a \<Rightarrow> 'f) \<Rightarrow> 'a \<Rightarrow> 'f script \<Rightarrow> fault + 'f shown" where
  \<comment> \<open>the first argument is \<^verbatim>\<open>Frame::interpolate\<close>; the frame shown is its result\<close>
  "interpolate frame_interpolate alpha s =
     bind_res (it_decr (frames s) (iter s)) (\<lambda>i1.
     bind_res (it_deref (frames s) i1) (\<lambda>prevFrame.
     bind_res (it_incr (frames s) i1) (\<lambda>i2.
     bind_res (it_deref (frames s) i2) (\<lambda>firstFrame.
     bind_res (it_incr (frames s) i2) (\<lambda>i3.
     bind_res (it_deref (frames s) i3) (\<lambda>secondFrame.
     bind_res (it_incr (frames s) i3) (\<lambda>i4.
     bind_res (it_deref (frames s) i4) (\<lambda>afterFrame.
     bind_res (it_decr (frames s) i4) (\<lambda>i5.
     bind_res (it_decr (frames s) i5) (\<lambda>i6.
     Inr (s\<lparr>iter := i6\<rparr>,
          [frame_interpolate prevFrame firstFrame secondFrame afterFrame alpha])))))))))))"

subsection \<open>Loading a script\<close>

text \<open>
  The file system is a map from file names to contents; a name it does not map is a
  file that \<^verbatim>\<open>ifstream::open\<close> cannot open. \<^verbatim>\<open>getline\<close> fails on an exhausted stream;
  otherwise it extracts the characters up to the next newline, or up to the end of the
  stream, and consumes the newline. \<^verbatim>\<open>Frame::deserialize(rootNode, line)\<close> is the
  parameter \<open>deserialize\<close>. The store that \<^verbatim>\<open>loadScriptFromFile\<close> returns is the object
  its \<^verbatim>\<open>return\<close> statement constructs: an iterator is a position here, and a position
  means the same in a copy of the list.
\<close>

definition newline :: char where
  "newline = CHR 0x0A"

definition getline :: "string \<Rightarrow> (string \<times> string) option" where
  \<comment> \<open>the line extracted and the rest of the stream\<close>
  "getline cs =
     (if cs = [] then None
      else Some (takeWhile (\<lambda>c. c \<noteq> newline) cs,
                 drop 1 (dropWhile (\<lambda>c. c \<noteq> newline) cs)))"

function read_lines :: "string \<Rightarrow> string list \<Rightarrow> string list" where
  \<comment> \<open>\<^verbatim>\<open>while (getline(file, line)) serialized.push_back(line);\<close>\<close>
  "read_lines cs serialized =
     (case getline cs of
        None \<Rightarrow> serialized
      | Some (line, rest) \<Rightarrow> read_lines rest (serialized @ [line]))"
  by pat_completeness auto
termination
proof (relation "measure (\<lambda>(cs, serialized). length cs)")
  show "wf (measure (\<lambda>(cs, serialized). length cs))"
    by simp
next
  fix cs :: string and serialized :: "string list" and x2 line rest
  assume "getline cs = Some x2" and "(line, rest) = x2"
  then have "cs \<noteq> []" and "rest = drop 1 (dropWhile (\<lambda>c. c \<noteq> newline) cs)"
    by (auto simp: getline_def split: if_splits)
  moreover have "length (dropWhile (\<lambda>c. c \<noteq> newline) cs) \<le> length cs"
    by (rule length_dropWhile_le)
  ultimately have "length rest < length cs"
    by (cases "dropWhile (\<lambda>c. c \<noteq> newline) cs") (auto simp: dropWhile_eq_Nil_conv)
  then show "((rest, serialized @ [line]), (cs, serialized))
      \<in> measure (\<lambda>(cs, serialized). length cs)"
    by simp
qed

declare read_lines.simps [simp del]

function load_loop :: "(string \<Rightarrow> 'f) \<Rightarrow> string list \<Rightarrow> int \<Rightarrow> 'f list \<Rightarrow> fault + 'f list" where
  \<comment> \<open>\<^verbatim>\<open>for (int i = 0; i < serialized.size(); i++) newFrames.push_back(...)\<close>\<close>
  "load_loop deserialize serialized i newFrames =
     (if to_size_t i < list_size serialized
      then (case int_incr i of
              Inl e \<Rightarrow> Inl e
            | Inr i' \<Rightarrow>
                load_loop deserialize serialized i'
                  (newFrames @ [deserialize (serialized ! nat i)]))
      else Inr newFrames)"
  by pat_completeness auto
termination
  by (relation "measure (\<lambda>(deserialize, serialized, i, newFrames). nat (INT_MAX - i))")
     (auto simp: int_incr_def split: if_splits)

declare load_loop.simps [simp del]

definition loadScriptFromFile ::
    "(string \<rightharpoonup> string) \<Rightarrow> (string \<Rightarrow> 'f) \<Rightarrow> string \<Rightarrow> fault + 'f script" where
  "loadScriptFromFile files deserialize filename =
     (case files filename of
        None \<Rightarrow> Inr Script_empty
      | Some contents \<Rightarrow>
          bind_res (load_loop deserialize (read_lines contents []) 0 []) (\<lambda>newFrames.
          Inr (Script_from newFrames)))"

subsection \<open>The states a client can reach\<close>

text \<open>
  A store is reachable when it results from a constructor or from
  \<^verbatim>\<open>loadScriptFromFile\<close>, followed by calls of the public member functions that return
  without a fault. \<^verbatim>\<open>advanceIter\<close> and \<^verbatim>\<open>regressIter\<close> are public and have no guard:
  \<^verbatim>\<open>advanceIter\<close> on the last element returns with the iterator at \<^verbatim>\<open>end()\<close>.
  \<^verbatim>\<open>getNumberOfKeyframes\<close> and \<^verbatim>\<open>writeScriptToFile\<close> leave the three fields as they
  are.
\<close>

inductive reachable :: "'f script \<Rightarrow> bool" where
  r_new: "reachable Script_empty"
| r_load: "loadScriptFromFile files deserialize filename = Inr s \<Longrightarrow> reachable s"
| r_canAnimate: "reachable s \<Longrightarrow> canAnimate s = (b, s') \<Longrightarrow> reachable s'"
| r_show: "reachable s \<Longrightarrow> showCurrentFrameInScene s = Inr (s', out) \<Longrightarrow> reachable s'"
| r_replace: "reachable s \<Longrightarrow> replaceCurrentFrameFromScene frame s = Inr (s', out)
    \<Longrightarrow> reachable s'"
| r_advance: "reachable s \<Longrightarrow> advanceCurrentFrame s = Inr (s', out) \<Longrightarrow> reachable s'"
| r_regress: "reachable s \<Longrightarrow> regressCurrentFrame s = Inr (s', out) \<Longrightarrow> reachable s'"
| r_begin: "reachable s \<Longrightarrow> goToBeginning s = Inr (s', out) \<Longrightarrow> reachable s'"
| r_delete: "reachable s \<Longrightarrow> deleteCurrentFrame s = Inr (s', out) \<Longrightarrow> reachable s'"
| r_create: "reachable s \<Longrightarrow> createNewFrameFromSceneAfterCurrentFrame frame s = Inr (s', out)
    \<Longrightarrow> reachable s'"
| r_interpolate: "reachable s \<Longrightarrow> interpolate frame_interpolate (alpha :: real) s = Inr (s', out)
    \<Longrightarrow> reachable s'"
| r_advanceIter: "reachable s \<Longrightarrow> advanceIter s = Inr s' \<Longrightarrow> reachable s'"
| r_regressIter: "reachable s \<Longrightarrow> regressIter s = Inr s' \<Longrightarrow> reachable s'"

text \<open>
  The invariant of the reachable stores: an empty store has its cursor in the canonical
  undefined state; in a store with frames the cursor stands on an element or at
  \<^verbatim>\<open>end()\<close>, and the ordinal is at least the cursor's position and within the range of
  \<^verbatim>\<open>int\<close>.
\<close>

definition store_inv :: "'f script \<Rightarrow> bool" where
  "store_inv s =
     (if frames s = [] then iter s = 0 \<and> currFrameNum s = 0
      else iter s \<le> length (frames s) \<and> int (iter s) \<le> currFrameNum s
           \<and> currFrameNum s \<le> INT_MAX)"

text \<open>
  The invariant of the specification: when the cursor stands on an element, the ordinal
  is the distance from the first element to it.
\<close>

definition ordinal_consistent :: "'f script \<Rightarrow> bool" where
  "ordinal_consistent s =
     (if frames s \<noteq> [] \<and> iter s < length (frames s)
      then currFrameNum s = int (iter s) else True)"

text \<open>A stand-in for \<^verbatim>\<open>Frame::interpolate\<close> in the examples: the linear choice.\<close>

definition nearest_frame :: "'f \<Rightarrow> 'f \<Rightarrow> 'f \<Rightarrow> 'f \<Rightarrow> real \<Rightarrow> 'f" where
  "nearest_frame prevFrame firstFrame secondFrame afterFrame alpha =
     (if alpha < 1 / 2 then firstFrame else secondFrame)"

section \<open>Basic facts\<close>

subsection \<open>Unfolding the primitives\<close>

lemmas script_defs = defined_def getNumberOfKeyframes_def advanceIter_def regressIter_def
  canAnimate_def showFrameInScene_def showCurrentFrameInScene_def advanceCurrentFrame_def
  regressCurrentFrame_def goToBeginning_def deleteCurrentFrame_def
  createNewFrameFromSceneAfterCurrentFrame_def replaceCurrentFrameFromScene_def
  interpolate_def Script_empty_def Script_from_def to_int_def

lemmas prim_defs = bind_res_def to_size_t_def size_sub_def int_incr_def int_decr_def
  list_size_def list_begin_def list_end_def it_incr_def it_decr_def it_deref_def it_assign_def
  list_erase_def after_erase_def list_insert_def after_insert_def INT_MAX_def INT_MIN_def

lemma bind_res_Inr_iff: "bind_res r k = Inr y \<longleftrightarrow> (\<exists>x. r = Inr x \<and> k x = Inr y)"
  by (cases r) (simp_all add: bind_res_def)

lemma it_incr_Inr: "it_incr xs i = Inr j \<longleftrightarrow> i < length xs \<and> j = Suc i"
  by (auto simp: it_incr_def)

lemma it_decr_Inr: "it_decr xs i = Inr j \<longleftrightarrow> 0 < i \<and> j = i - 1"
  by (auto simp: it_decr_def)

lemma it_deref_Inr: "it_deref xs i = Inr x \<longleftrightarrow> i < length xs \<and> x = xs ! i"
  by (auto simp: it_deref_def)

lemma int_incr_Inr: "int_incr c = Inr d \<longleftrightarrow> c < INT_MAX \<and> d = c + 1"
  by (auto simp: int_incr_def)

lemma int_decr_Inr: "int_decr c = Inr d \<longleftrightarrow> INT_MIN < c \<and> d = c - 1"
  by (auto simp: int_decr_def)

lemma list_erase_Inr:
  "list_erase xs i = Inr ys \<longleftrightarrow> i < length xs \<and> ys = take i xs @ drop (Suc i) xs"
  by (auto simp: list_erase_def)

lemma it_assign_Inr: "it_assign xs i x = Inr ys \<longleftrightarrow> i < length xs \<and> ys = xs[i := x]"
  by (auto simp: it_assign_def)

lemma showFrameInScene_Inr:
  "showFrameInScene s = Inr (s', out) \<longleftrightarrow>
     iter s < length (frames s) \<and> s' = s \<and> out = [frames s ! iter s]"
  by (auto simp: showFrameInScene_def bind_res_Inr_iff it_deref_Inr)

lemmas Inr_iffs = bind_res_Inr_iff it_incr_Inr it_decr_Inr it_deref_Inr int_incr_Inr
  int_decr_Inr list_erase_Inr it_assign_Inr showFrameInScene_Inr

lemma defined_eq:
  "defined s = (if frames s = [] then (False, s\<lparr>iter := 0, currFrameNum := 0\<rparr>)
                else (iter s \<noteq> length (frames s), s))"
  by (simp add: defined_def prim_defs)

lemma showFrameInScene_state: "showFrameInScene s = Inr (s', out) \<Longrightarrow> s' = s"
  by (auto simp: showFrameInScene_def prim_defs split: if_splits)



lemma defined_inv: "store_inv s \<Longrightarrow> defined s = (iter s < length (frames s), s)"
  by (auto simp: store_inv_def defined_eq)

lemma advanceIter_inv:
  assumes "store_inv s" "advanceIter s = Inr s'"
  shows "store_inv s'"
  using assms by (auto simp: store_inv_def advanceIter_def Inr_iffs split: if_splits)

lemma regressIter_inv:
  assumes "store_inv s" "regressIter s = Inr s'"
  shows "store_inv s'"
  using assms by (auto simp: store_inv_def regressIter_def Inr_iffs split: if_splits)

lemma canAnimate_inv: "store_inv s \<Longrightarrow> canAnimate s = (b, s') \<Longrightarrow> store_inv s'"
  by (auto simp: canAnimate_def defined_inv)

lemma showCurrentFrameInScene_inv:
  "store_inv s \<Longrightarrow> showCurrentFrameInScene s = Inr (s', out) \<Longrightarrow> store_inv s'"
  by (auto simp: showCurrentFrameInScene_def defined_inv
      split: if_splits dest: showFrameInScene_state)

lemma advanceCurrentFrame_inv:
  assumes "store_inv s" "advanceCurrentFrame s = Inr (s', out)"
  shows "store_inv s'"
proof (cases "iter s < length (frames s) \<and>
    to_size_t (currFrameNum s) < size_sub (list_size (frames s)) 1")
  case False
  with assms show ?thesis
    by (auto simp: advanceCurrentFrame_def defined_inv split: if_splits)
next
  case True
  with assms obtain s2 where "advanceIter s = Inr s2" "showFrameInScene s2 = Inr (s', out)"
    by (auto simp: advanceCurrentFrame_def defined_inv bind_res_Inr_iff)
  then show ?thesis using advanceIter_inv [OF assms(1)] showFrameInScene_state by blast
qed

lemma regressCurrentFrame_inv:
  assumes "store_inv s" "regressCurrentFrame s = Inr (s', out)"
  shows "store_inv s'"
proof (cases "iter s < length (frames s) \<and> iter s \<noteq> 0")
  case False
  with assms show ?thesis
    by (auto simp: regressCurrentFrame_def defined_inv list_begin_def split: if_splits)
next
  case True
  with assms obtain s2 where "regressIter s = Inr s2" "showFrameInScene s2 = Inr (s', out)"
    by (auto simp: regressCurrentFrame_def defined_inv list_begin_def bind_res_Inr_iff)
  then show ?thesis using regressIter_inv [OF assms(1)] showFrameInScene_state by blast
qed

lemma goToBeginning_inv:
  assumes "store_inv s" "goToBeginning s = Inr (s', out)"
  shows "store_inv s'"
proof -
  let ?s0 = "s\<lparr>iter := list_begin (frames s), currFrameNum := 0\<rparr>"
  have "store_inv ?s0" using assms(1) by (auto simp: store_inv_def prim_defs)
  then show ?thesis using assms(2)
    by (auto simp: goToBeginning_def defined_inv split: if_splits dest!: showFrameInScene_state)
qed

lemma deleteCurrentFrame_inv:
  assumes "store_inv s" "deleteCurrentFrame s = Inr (s', out)"
  shows "store_inv s'"
proof (cases "iter s < length (frames s)")
  case False
  with assms show ?thesis by (simp add: deleteCurrentFrame_def defined_inv)
next
  case True
  then have ne: "frames s \<noteq> []" by auto
  with assms(1) have i: "int (iter s) \<le> currFrameNum s" "currFrameNum s \<le> INT_MAX"
    by (auto simp: store_inv_def)
  let ?fs = "take (iter s) (frames s) @ drop (Suc (iter s)) (frames s)"
  show ?thesis
  proof (cases "iter s = 0")
    case z: True
    with True assms have "s' = s\<lparr>frames := ?fs, iter := 0\<rparr>" "0 < length ?fs"
      by (auto simp: deleteCurrentFrame_def defined_inv Inr_iffs list_begin_def after_erase_def)
    then show ?thesis using i z by (auto simp: store_inv_def)
  next
    case nz: False
    with True assms have "s' = s\<lparr>frames := ?fs, iter := iter s - 1\<rparr>"
      by (auto simp: deleteCurrentFrame_def defined_inv Inr_iffs list_begin_def after_erase_def)
    then show ?thesis using i nz True by (auto simp: store_inv_def)
  qed
qed

lemma createNewFrameFromSceneAfterCurrentFrame_inv:
  assumes "store_inv s" "createNewFrameFromSceneAfterCurrentFrame f s = Inr (s', out)"
  shows "store_inv s'"
proof (cases "iter s < length (frames s)")
  case False
  with assms have "s' = s\<lparr>frames := frames s @ [f], iter := 0, currFrameNum := 0\<rparr>"
    by (auto simp: createNewFrameFromSceneAfterCurrentFrame_def defined_inv Inr_iffs
        list_begin_def Let_def)
  then show ?thesis by (simp add: store_inv_def INT_MAX_def)
next
  case True
  then have ne: "frames s \<noteq> []" by auto
  with assms(1) have i: "int (iter s) \<le> currFrameNum s" "currFrameNum s \<le> INT_MAX"
    by (auto simp: store_inv_def)
  from True assms
  have "s' = s\<lparr>frames := take (Suc (iter s)) (frames s) @ [f] @ drop (Suc (iter s)) (frames s),
      iter := Suc (iter s), currFrameNum := currFrameNum s + 1\<rparr> \<and> currFrameNum s < INT_MAX"
    by (auto simp: createNewFrameFromSceneAfterCurrentFrame_def defined_inv Inr_iffs
        list_insert_def after_insert_def Let_def)
  then show ?thesis using i True by (auto simp: store_inv_def)
qed

lemma replaceCurrentFrameFromScene_inv:
  assumes "store_inv s" "replaceCurrentFrameFromScene f s = Inr (s', out)"
  shows "store_inv s'"
proof (cases "iter s < length (frames s)")
  case True
  with assms show ?thesis
    by (auto simp: replaceCurrentFrameFromScene_def defined_inv store_inv_def Inr_iffs)
next
  case False
  with assms show ?thesis
    using createNewFrameFromSceneAfterCurrentFrame_inv [of s f s' out]
    by (auto simp: replaceCurrentFrameFromScene_def defined_inv)
qed

lemma interpolate_same:
  "interpolate fi alpha s = Inr (s', out) \<Longrightarrow> s' = s"
  by (auto simp: interpolate_def Inr_iffs)

lemma load_inv: "loadScriptFromFile files deserialize filename = Inr s \<Longrightarrow> store_inv s"
  by (auto simp: loadScriptFromFile_def Script_empty_def Script_from_def store_inv_def prim_defs
     split: option.splits sum.splits)



lemma reachable_store_inv: "reachable s \<Longrightarrow> store_inv s"
proof (induction rule: reachable.induct)
  case r_new
  then show ?case by (simp add: store_inv_def Script_empty_def prim_defs)
next
  case (r_load files deserialize filename s)
  then show ?case by (rule load_inv)
next
  case (r_interpolate s frame_interpolate alpha s' out)
  then show ?case by (auto dest: interpolate_same)
qed (blast intro: canAnimate_inv showCurrentFrameInScene_inv replaceCurrentFrameFromScene_inv
    advanceCurrentFrame_inv regressCurrentFrame_inv goToBeginning_inv deleteCurrentFrame_inv
    createNewFrameFromSceneAfterCurrentFrame_inv advanceIter_inv regressIter_inv)+

subsection \<open>Conversions within range\<close>

lemma to_size_t_id: "0 \<le> c \<Longrightarrow> c \<le> INT_MAX \<Longrightarrow> to_size_t c = c"
  by (simp add: to_size_t_def INT_MAX_def)

lemma size_sub_le: "b \<le> a \<Longrightarrow> size_sub a b \<le> a - b"
  unfolding size_sub_def by (intro zmod_le_nonneg_dividend) simp

lemma size_sub_id: "0 \<le> b \<Longrightarrow> b \<le> a \<Longrightarrow> a \<le> INT_MAX \<Longrightarrow> size_sub a b = a - b"
  by (simp add: size_sub_def INT_MAX_def mod_pos_pos_trivial)


subsection \<open>The guard of \<^verbatim>\<open>canAnimate\<close> and the lookups of \<^verbatim>\<open>interpolate\<close>\<close>

lemma canAnimate_inv_eq:
  "store_inv s \<Longrightarrow>
     canAnimate s =
       (iter s < length (frames s) \<and>
        to_size_t (currFrameNum s) < size_sub (list_size (frames s)) 2, s)"
  by (simp add: canAnimate_def defined_inv)

lemma canAnimate_range:
  assumes "store_inv s" "fst (canAnimate s)" "iter s \<noteq> list_begin (frames s)"
  shows "0 < iter s \<and> iter s + 2 < length (frames s)"
proof -
  from assms have lt: "iter s < length (frames s)"
    and g: "to_size_t (currFrameNum s) < size_sub (list_size (frames s)) 2"
    by (auto simp: canAnimate_inv_eq)
  from lt have ne: "frames s \<noteq> []" by auto
  from assms(3) have pos: "0 < iter s" by (simp add: list_begin_def)
  from assms(1) ne have i: "int (iter s) \<le> currFrameNum s" "currFrameNum s \<le> INT_MAX"
    by (auto simp: store_inv_def)
  then have "to_size_t (currFrameNum s) = currFrameNum s" by (intro to_size_t_id) auto
  moreover have "size_sub (list_size (frames s)) 2 \<le> list_size (frames s) - 2"
    using pos lt by (intro size_sub_le) (simp add: list_size_def)
  ultimately have "currFrameNum s < int (length (frames s)) - 2"
    using g by (simp add: list_size_def)
  with i(1) pos show ?thesis by linarith
qed

lemma canAnimate_except_single:
  assumes "store_inv s" "length (frames s) \<noteq> 1" "int (length (frames s)) \<le> INT_MAX"
  shows "fst (canAnimate s) \<longleftrightarrow>
           3 \<le> length (frames s) \<and> currFrameNum s \<le> int (length (frames s)) - 3"
proof (cases "frames s = []")
  case True
  with assms(1) show ?thesis by (simp add: canAnimate_inv_eq)
next
  case False
  with assms(2) have two: "2 \<le> int (length (frames s))"
    by (cases "frames s" rule: list.exhaust; cases "tl (frames s)") auto
  from assms(1) False have c: "int (iter s) \<le> currFrameNum s" "currFrameNum s \<le> INT_MAX"
    by (auto simp: store_inv_def)
  have "size_sub (list_size (frames s)) 2 = int (length (frames s)) - 2"
    using two assms(3) by (simp add: list_size_def size_sub_id)
  moreover have "to_size_t (currFrameNum s) = currFrameNum s"
    using c by (intro to_size_t_id) auto
  ultimately show ?thesis using assms(1) c(1) by (auto simp: canAnimate_inv_eq)
qed

lemma interpolate_Inr_iff:
  "interpolate fi alpha s = Inr r \<longleftrightarrow>
     0 < iter s \<and> iter s + 2 < length (frames s) \<and>
     r = (s, [fi (frames s ! (iter s - 1)) (frames s ! iter s) (frames s ! (iter s + 1))
                 (frames s ! (iter s + 2)) alpha])"
proof (cases "0 < iter s \<and> iter s + 2 < length (frames s)")
  case True
  then have "Suc (iter s - 1) = iter s" "iter s - 1 < length (frames s)"
    "Suc (Suc (iter s)) < length (frames s)" "Suc (iter s) < length (frames s)"
    "iter s < length (frames s)"
    by auto
  then show ?thesis using True
    by (auto simp: interpolate_def Inr_iffs)
next
  case False
  then show ?thesis
    by (auto simp: interpolate_def Inr_iffs)
qed

subsection \<open>What \<^verbatim>\<open>deleteCurrentFrame\<close> does to a store with several frames\<close>

text \<open>
  The frame under the cursor is removed; the cursor goes to the element before it, or to
  the element after it when the first frame is deleted; \<^verbatim>\<open>currFrameNum\<close> is not touched.
\<close>

lemma deleteCurrentFrame_result:
  assumes "store_inv s" "1 < length (frames s)" "iter s < length (frames s)"
  shows "deleteCurrentFrame s =
           Inr (s\<lparr>frames := take (iter s) (frames s) @ drop (Suc (iter s)) (frames s),
                   iter := (if iter s = 0 then 0 else iter s - 1)\<rparr>,
                [if iter s = 0 then frames s ! 1 else frames s ! (iter s - 1)])"
proof (cases "iter s = 0")
  case True
  then show ?thesis using assms
    by (simp add: deleteCurrentFrame_def defined_inv list_begin_def it_incr_def list_erase_def
        after_erase_def bind_res_def showFrameInScene_def it_deref_def)
next
  case False
  then have "min (length (frames s)) (iter s) = iter s" using assms(3) by simp
  then show ?thesis using assms False
    by (simp add: deleteCurrentFrame_def defined_inv list_begin_def it_decr_def list_erase_def
        after_erase_def bind_res_def showFrameInScene_def it_deref_def nth_append) arith
qed

subsection \<open>Advancing and regressing while the ordinal is the position\<close>

lemma advance_then_regress_consistent:
  assumes "store_inv s" "ordinal_consistent s" "Suc (iter s) < length (frames s)"
    "int (length (frames s)) \<le> INT_MAX"
  shows "advanceCurrentFrame s =
           Inr (s\<lparr>iter := Suc (iter s), currFrameNum := currFrameNum s + 1\<rparr>,
                [frames s ! Suc (iter s)]) \<and>
         regressCurrentFrame (s\<lparr>iter := Suc (iter s), currFrameNum := currFrameNum s + 1\<rparr>) =
           Inr (s, [frames s ! iter s])"
proof -
  from assms(3) have ne: "frames s \<noteq> []" and lt: "iter s < length (frames s)" by auto
  from assms(2,3) ne have c: "currFrameNum s = int (iter s)" by (simp add: ordinal_consistent_def)
  have g: "to_size_t (currFrameNum s) < size_sub (list_size (frames s)) 1"
    using c assms(3,4) by (simp add: to_size_t_id size_sub_id list_size_def)
  have m: "currFrameNum s < INT_MAX" using c assms(3,4) by simp
  have a: "advanceCurrentFrame s =
           Inr (s\<lparr>iter := Suc (iter s), currFrameNum := currFrameNum s + 1\<rparr>,
                [frames s ! Suc (iter s)])"
    using assms(1,3) lt g m
    by (simp add: advanceCurrentFrame_def defined_inv advanceIter_def it_incr_def int_incr_def
        bind_res_def showFrameInScene_def it_deref_def)
  let ?s1 = "s\<lparr>iter := Suc (iter s), currFrameNum := currFrameNum s + 1\<rparr>"
  have "defined ?s1 = (True, ?s1)" using ne assms(3) by (simp add: defined_eq)
  moreover have "INT_MIN < currFrameNum s + 1" using c by (simp add: INT_MIN_def)
  ultimately have "regressCurrentFrame ?s1 = Inr (s, [frames s ! iter s])"
    using assms(3)
    by (simp add: regressCurrentFrame_def list_begin_def regressIter_def it_decr_def int_decr_def
        bind_res_def showFrameInScene_def it_deref_def)
  with a show ?thesis by simp
qed

subsection \<open>The ordinal under each operation\<close>

text \<open>
  While the store satisfies \<open>store_inv\<close>, every operation that moves the cursor keeps
  the ordinal equal to the position while the cursor is on an element, except
  \<^verbatim>\<open>deleteCurrentFrame\<close> on a frame that is not the first: it breaks the equality
  whenever it returns.
\<close>

lemma advanceIter_ordinal:
  "ordinal_consistent s \<Longrightarrow> iter s < length (frames s) \<Longrightarrow> advanceIter s = Inr s'
     \<Longrightarrow> ordinal_consistent s'"
  by (auto simp: ordinal_consistent_def advanceIter_def Inr_iffs)

lemma regressIter_ordinal:
  "ordinal_consistent s \<Longrightarrow> iter s < length (frames s) \<Longrightarrow> regressIter s = Inr s'
     \<Longrightarrow> ordinal_consistent s'"
  by (auto simp: ordinal_consistent_def regressIter_def Inr_iffs)

lemma advanceCurrentFrame_ordinal:
  assumes "store_inv s" "ordinal_consistent s" "advanceCurrentFrame s = Inr (s', out)"
  shows "ordinal_consistent s'"
  using assms
  by (auto simp: advanceCurrentFrame_def defined_inv ordinal_consistent_def advanceIter_def
      Inr_iffs store_inv_def split: if_splits)

lemma regressCurrentFrame_ordinal:
  assumes "store_inv s" "ordinal_consistent s" "regressCurrentFrame s = Inr (s', out)"
  shows "ordinal_consistent s'"
  using assms
  by (auto simp: regressCurrentFrame_def defined_inv ordinal_consistent_def regressIter_def
      Inr_iffs store_inv_def list_begin_def split: if_splits)

lemma goToBeginning_ordinal:
  assumes "goToBeginning s = Inr (s', out)"
  shows "ordinal_consistent s'"
  using assms
  by (auto simp: goToBeginning_def defined_eq ordinal_consistent_def Inr_iffs list_begin_def
      split: if_splits)

lemma createNewFrameFromSceneAfterCurrentFrame_ordinal:
  assumes "store_inv s" "ordinal_consistent s"
    "createNewFrameFromSceneAfterCurrentFrame frame s = Inr (s', out)"
  shows "ordinal_consistent s'"
  using assms
  by (auto simp: createNewFrameFromSceneAfterCurrentFrame_def defined_inv ordinal_consistent_def
      Inr_iffs store_inv_def list_begin_def list_insert_def after_insert_def Let_def
      split: if_splits)

lemma replaceCurrentFrameFromScene_ordinal:
  assumes "store_inv s" "ordinal_consistent s"
    "replaceCurrentFrameFromScene frame s = Inr (s', out)"
  shows "ordinal_consistent s'"
proof (cases "iter s < length (frames s)")
  case False
  with assms show ?thesis
    using createNewFrameFromSceneAfterCurrentFrame_ordinal [of s frame s' out]
    by (simp add: replaceCurrentFrameFromScene_def defined_inv)
next
  case True
  with assms show ?thesis
    by (auto simp: replaceCurrentFrameFromScene_def defined_inv ordinal_consistent_def Inr_iffs)
qed

lemma deleteCurrentFrame_first_ordinal:
  assumes "store_inv s" "ordinal_consistent s" "iter s = 0"
    "deleteCurrentFrame s = Inr (s', out)"
  shows "ordinal_consistent s'"
  using assms
  by (auto simp: deleteCurrentFrame_def defined_inv ordinal_consistent_def Inr_iffs
      store_inv_def list_begin_def after_erase_def split: if_splits)

lemma deleteCurrentFrame_later_ordinal:
  assumes "store_inv s" "ordinal_consistent s" "0 < iter s" "iter s < length (frames s)"
    "deleteCurrentFrame s = Inr (s', out)"
  shows "\<not> ordinal_consistent s'"
  using assms
  by (auto simp: deleteCurrentFrame_def defined_inv ordinal_consistent_def Inr_iffs
      store_inv_def list_begin_def after_erase_def split: if_splits)

subsection \<open>Creating a frame with the cursor on an element, or in the empty store\<close>

lemma createNewFrame_on_element_or_empty:
  assumes "store_inv s" "frames s = [] \<or> iter s < length (frames s)"
    "currFrameNum s < INT_MAX"
  shows "\<exists>s'. createNewFrameFromSceneAfterCurrentFrame frame s = Inr (s', [frame]) \<and>
           it_deref (frames s') (iter s') = Inr frame \<and>
           length (frames s') = length (frames s) + 1 \<and>
           (if fst (defined s)
            then frames s' = take (Suc (iter s)) (frames s) @ [frame] @ drop (Suc (iter s)) (frames s)
                 \<and> iter s' = Suc (iter s) \<and> currFrameNum s' = currFrameNum s + 1
            else frames s = [] \<and> frames s' = [frame] \<and> iter s' = 0 \<and> currFrameNum s' = 0
                 \<and> getNumberOfKeyframes s' = 1 \<and> fst (defined s'))"
proof (cases "frames s = []")
  case True
  let ?s' = "s\<lparr>frames := [frame], iter := 0, currFrameNum := 0\<rparr>"
  have "createNewFrameFromSceneAfterCurrentFrame frame s = Inr (?s', [frame])"
    using True assms(1)
    by (simp add: createNewFrameFromSceneAfterCurrentFrame_def defined_inv Inr_iffs
        list_begin_def Let_def)
  moreover have "getNumberOfKeyframes ?s' = 1" "fst (defined ?s')"
    by (simp_all add: script_defs prim_defs)
  ultimately show ?thesis using True assms(1)
    by (intro exI [of _ ?s']) (simp add: defined_inv it_deref_def)
next
  case False
  with assms(2) have i: "iter s < length (frames s)" by simp
  let ?fs = "take (Suc (iter s)) (frames s) @ [frame] @ drop (Suc (iter s)) (frames s)"
  let ?s' = "s\<lparr>frames := ?fs, iter := Suc (iter s), currFrameNum := currFrameNum s + 1\<rparr>"
  have n: "?fs ! Suc (iter s) = frame"
    using i by (simp add: nth_append)
  have "createNewFrameFromSceneAfterCurrentFrame frame s = Inr (?s', [frame])"
    using assms(1,3) i n
    by (simp add: createNewFrameFromSceneAfterCurrentFrame_def defined_inv Inr_iffs
        list_insert_def after_insert_def Let_def)
  then show ?thesis using assms(1) i n
    by (intro exI [of _ ?s']) (auto simp: defined_inv it_deref_def)
qed

subsection \<open>The loops of \<^verbatim>\<open>loadScriptFromFile\<close>\<close>

lemma load_loop_drop:
  assumes "0 \<le> i" "i \<le> int (length serialized)" "int (length serialized) \<le> INT_MAX"
  shows "load_loop deserialize serialized i newFrames =
           Inr (newFrames @ map deserialize (drop (nat i) serialized))"
  using assms
proof (induction deserialize serialized i newFrames rule: load_loop.induct)
  case (1 deserialize serialized i newFrames)
  have c: "to_size_t i = i" using "1.prems" by (intro to_size_t_id) auto
  show ?case
  proof (cases "i < int (length serialized)")
    case False
    with "1.prems" have "nat i = length serialized" by simp
    with False c show ?thesis
      by (subst load_loop.simps) (simp add: list_size_def)
  next
    case True
    with "1.prems" have inc: "int_incr i = Inr (i + 1)" by (simp add: int_incr_def)
    have g: "to_size_t i < list_size serialized" using True c by (simp add: list_size_def)
    have IH: "load_loop deserialize serialized (i + 1) (newFrames @ [deserialize (serialized ! nat i)]) =
      Inr ((newFrames @ [deserialize (serialized ! nat i)]) @ map deserialize (drop (nat (i + 1)) serialized))"
      using "1.IH" [OF g inc] True "1.prems" by simp
    have d: "drop (nat i) serialized = serialized ! nat i # drop (nat (i + 1)) serialized"
      using True "1.prems"(1) by (simp add: Cons_nth_drop_Suc nat_add_distrib)
    show ?thesis
      by (subst load_loop.simps) (simp add: g inc IH d)
  qed
qed

lemma load_loop_all:
  "int (length serialized) \<le> INT_MAX \<Longrightarrow>
     load_loop deserialize serialized 0 [] = Inr (map deserialize serialized)"
  using load_loop_drop [of 0 serialized deserialize "[]"] by simp

lemma read_lines_terminated:
  assumes "\<forall>l \<in> set ls. newline \<notin> set l"
  shows "read_lines (concat (map (\<lambda>l. l @ [newline]) ls)) serialized = serialized @ ls"
  using assms
proof (induction ls arbitrary: serialized)
  case Nil
  show ?case by (subst read_lines.simps) (simp add: getline_def)
next
  case (Cons l ls)
  let ?rest = "concat (map (\<lambda>l. l @ [newline]) ls)"
  from Cons.prems have nl: "\<forall>c \<in> set l. c \<noteq> newline" by auto
  then have t: "takeWhile (\<lambda>c. c \<noteq> newline) (l @ newline # ?rest) = l"
    by (simp add: takeWhile_append2)
  from nl have d: "dropWhile (\<lambda>c. c \<noteq> newline) (l @ newline # ?rest) = newline # ?rest"
    by (simp add: dropWhile_append2)
  have "getline (l @ newline # ?rest) = Some (l, ?rest)"
    by (simp add: getline_def t d)
  then have "read_lines (concat (map (\<lambda>l. l @ [newline]) (l # ls))) serialized =
      read_lines ?rest (serialized @ [l])"
    by (subst read_lines.simps) simp
  also have "\<dots> = (serialized @ [l]) @ ls" using Cons.prems by (intro Cons.IH) simp
  finally show ?case by simp
qed

subsection \<open>Some reachable stores\<close>

text \<open>
  Calls of \<^verbatim>\<open>createNewFrameFromSceneAfterCurrentFrame\<close> on \<^verbatim>\<open>Script()\<close>, then calls of
  \<^verbatim>\<open>advanceIter\<close>, \<^verbatim>\<open>regressCurrentFrame\<close> and \<^verbatim>\<open>deleteCurrentFrame\<close>.
\<close>

lemma reachable_one: "reachable \<lparr>frames = [''A''], iter = 0, currFrameNum = 0\<rparr>"
  by (rule r_create [OF r_new, of "''A''" _ "[''A'']"]) (simp add: script_defs prim_defs)

lemma reachable_two: "reachable \<lparr>frames = [''A'', ''B''], iter = 1, currFrameNum = 1\<rparr>"
  by (rule r_create [OF reachable_one, of "''B''" _ "[''B'']"]) (simp add: script_defs prim_defs)


lemma reachable_three:
  "reachable \<lparr>frames = [''A'', ''B'', ''C''], iter = 2, currFrameNum = 2\<rparr>"
  by (rule r_create [OF reachable_two, of "''C''" _ "[''C'']"]) (simp add: script_defs prim_defs)

lemma reachable_four:
  "reachable \<lparr>frames = [''A'', ''B'', ''C'', ''D''], iter = 3, currFrameNum = 3\<rparr>"
  by (rule r_create [OF reachable_three, of "''D''" _ "[''D'']"]) (simp add: script_defs prim_defs)

lemma reachable_four_at_C:
  "reachable \<lparr>frames = [''A'', ''B'', ''C'', ''D''], iter = 2, currFrameNum = 2\<rparr>"
  by (rule r_regress [OF reachable_four, of _ "[''C'']"]) (simp add: script_defs prim_defs)

lemma reachable_four_at_B:
  "reachable \<lparr>frames = [''A'', ''B'', ''C'', ''D''], iter = 1, currFrameNum = 1\<rparr>"
  by (rule r_regress [OF reachable_four_at_C, of _ "[''B'']"]) (simp add: script_defs prim_defs)

lemma reachable_drifted:
  "reachable \<lparr>frames = [''A'', ''B'', ''D''], iter = 1, currFrameNum = 2\<rparr>"
  by (rule r_delete [OF reachable_four_at_C, of _ "[''B'']"]) (simp add: script_defs prim_defs)

section \<open>The claims\<close>

subsection \<open>C1: when \<^verbatim>\<open>canAnimate\<close> answers yes\<close>

text \<open>
  C1 says that \<^verbatim>\<open>canAnimate()\<close> is true iff the sequence holds at least three frames
  and \<^verbatim>\<open>currFrameNum\<close> is at most \<^verbatim>\<open>count() - 3\<close>. On a store with the single frame
  \<open>A\<close> and the cursor on it, \<^verbatim>\<open>frames.size() - 2\<close> wraps around to the largest
  \<^verbatim>\<open>size_t\<close>, and the function answers true with one frame stored. (For every other
  number of frames the guard is the one of the claim: \<open>canAnimate_except_single\<close>.)
\<close>

theorem canAnimate_single_frame:
  "getNumberOfKeyframes \<lparr>frames = [''A''], iter = 0, currFrameNum = 0\<rparr> = 1 \<and>
   canAnimate \<lparr>frames = [''A''], iter = 0, currFrameNum = 0\<rparr> =
     (True, \<lparr>frames = [''A''], iter = 0, currFrameNum = 0\<rparr>)"
  by (simp add: script_defs prim_defs)

subsection \<open>C2: \<^verbatim>\<open>canAnimate\<close> as the guard of \<^verbatim>\<open>interpolate\<close>\<close>

text \<open>
  As stated, C2 fails on the first frame: on a store loaded with the four frames
  \<open>[A, B, C, D]\<close> the cursor is on \<open>A\<close>, \<^verbatim>\<open>canAnimate()\<close> is true, and the first
  statement of \<^verbatim>\<open>interpolate\<close> decrements the iterator at \<^verbatim>\<open>begin()\<close>.
\<close>

theorem canAnimate_on_first_frame:
  "canAnimate (Script_from [''A'', ''B'', ''C'', ''D'']) =
     (True, Script_from [''A'', ''B'', ''C'', ''D'']) \<and>
   interpolate nearest_frame (1 / 2) (Script_from [''A'', ''B'', ''C'', ''D'']) =
     Inl DecrementBegin"
  by (simp add: script_defs prim_defs)

text \<open>
  C2, amended: in every reachable store, whenever \<^verbatim>\<open>canAnimate()\<close> is true and the cursor
  is not on the first element, the four lookups of \<^verbatim>\<open>interpolate(alpha)\<close> are on live
  elements: the cursor has an element before it and two after it, and \<^verbatim>\<open>interpolate\<close>
  returns, having shown the frame interpolated from these four, with the store as it was.
\<close>

theorem interpolate_lookups_live:
  assumes "reachable s" "fst (canAnimate s)" "iter s \<noteq> list_begin (frames s)"
  shows "0 < iter s \<and> iter s + 2 < length (frames s) \<and>
         interpolate fi alpha (snd (canAnimate s)) =
           Inr (s, [fi (frames s ! (iter s - 1)) (frames s ! iter s)
                       (frames s ! (iter s + 1)) (frames s ! (iter s + 2)) alpha])"
proof -
  have inv: "store_inv s" using assms(1) by (rule reachable_store_inv)
  then have "snd (canAnimate s) = s" by (simp add: canAnimate_inv_eq)
  moreover have "0 < iter s \<and> iter s + 2 < length (frames s)"
    using inv assms(2,3) by (rule canAnimate_range)
  ultimately show ?thesis by (simp add: interpolate_Inr_iff)
qed

theorem interpolate_lookups_live_witness:
  "reachable \<lparr>frames = [''A'', ''B'', ''C'', ''D''], iter = 1, currFrameNum = 1\<rparr> \<and>
   fst (canAnimate \<lparr>frames = [''A'', ''B'', ''C'', ''D''], iter = 1, currFrameNum = 1\<rparr>) \<and>
   interpolate nearest_frame (1 / 4)
       (snd (canAnimate \<lparr>frames = [''A'', ''B'', ''C'', ''D''], iter = 1, currFrameNum = 1\<rparr>)) =
     Inr (\<lparr>frames = [''A'', ''B'', ''C'', ''D''], iter = 1, currFrameNum = 1\<rparr>, [''B''])"
proof -
  let ?s = "\<lparr>frames = [''A'', ''B'', ''C'', ''D''], iter = 1, currFrameNum = 1\<rparr>"
  have c: "fst (canAnimate ?s)" by (simp add: script_defs prim_defs)
  have b: "iter ?s \<noteq> list_begin (frames ?s)" by (simp add: list_begin_def)
  show ?thesis
    using reachable_four_at_B c
      interpolate_lookups_live [OF reachable_four_at_B c b, of nearest_frame "1 / 4"]
    by (simp add: nearest_frame_def)
qed

subsection \<open>C3: the ordinal and the position of the cursor\<close>

text \<open>
  C3 says that every public operation keeps \<^verbatim>\<open>currFrameNum\<close> equal to the distance from
  the first element to the cursor's element. \<^verbatim>\<open>deleteCurrentFrame\<close> on the store
  \<open>[A, B, C]\<close> with the cursor on \<open>B\<close>, where the two agree, moves the iterator back
  and leaves \<^verbatim>\<open>currFrameNum\<close> as it was: afterwards they differ. (So it is for every
  frame but the first, \<open>deleteCurrentFrame_later_ordinal\<close>; the other operations keep
  the two equal.)
\<close>

theorem deleteCurrentFrame_breaks_ordinal:
  "ordinal_consistent \<lparr>frames = [''A'', ''B'', ''C''], iter = 1, currFrameNum = 1\<rparr> \<and>
   (case deleteCurrentFrame \<lparr>frames = [''A'', ''B'', ''C''], iter = 1, currFrameNum = 1\<rparr> of
      Inl e \<Rightarrow> False
    | Inr (s', out) \<Rightarrow> \<not> ordinal_consistent s')"
  by (simp add: script_defs prim_defs ordinal_consistent_def)

subsection \<open>C4: deleting the middle frame of three\<close>

text \<open>
  C4 says that \<^verbatim>\<open>deleteCurrentFrame()\<close> on \<open>[A, B, C]\<close> with the cursor on \<open>B\<close> at
  ordinal 1 leaves \<open>[A, C]\<close> with the cursor on \<open>A\<close> at ordinal 0. The code leaves
  \<open>[A, C]\<close> with the cursor on \<open>A\<close>, which it shows, and the ordinal still 1.
\<close>

theorem deleteCurrentFrame_middle_of_three:
  "deleteCurrentFrame \<lparr>frames = [''A'', ''B'', ''C''], iter = 1, currFrameNum = 1\<rparr> =
     Inr (\<lparr>frames = [''A'', ''C''], iter = 0, currFrameNum = 1\<rparr>, [''A''])"
  by (simp add: script_defs prim_defs)

subsection \<open>C5: deleting the only frame\<close>

text \<open>
  C5 says that deleting the only frame accesses no element once the sequence is empty.
  The code erases the frame and then calls \<^verbatim>\<open>iter->showFrameInScene()\<close> with the
  iterator at \<^verbatim>\<open>end()\<close> of the empty list.
\<close>

theorem deleteCurrentFrame_only_frame:
  "deleteCurrentFrame \<lparr>frames = [''A''], iter = 0, currFrameNum = 0\<rparr> = Inl DerefEnd"
  by (simp add: script_defs prim_defs)

subsection \<open>C6: \<^verbatim>\<open>defined\<close> and the empty store\<close>




subsection \<open>C7: creating a frame after the current one\<close>

text \<open>
  C7 says that \<^verbatim>\<open>createNewFrameFromSceneAfterCurrentFrame\<close>, when the cursor is undefined,
  appends the captured frame as the only element and leaves the cursor on it. On the
  reachable store \<open>[A, B]\<close> with the iterator at \<^verbatim>\<open>end()\<close>, left by the public
  \<^verbatim>\<open>advanceIter()\<close>, the cursor is undefined; the code appends \<open>X\<close> to the two frames,
  sets the iterator to \<^verbatim>\<open>begin()\<close> and shows \<open>A\<close>: the current frame is not the new
  one. (On every store where the cursor is on an element or the sequence is empty the
  code does what C7 says: \<open>createNewFrame_on_element_or_empty\<close>.)
\<close>

theorem createNewFrame_past_the_end:
  "advanceIter \<lparr>frames = [''A'', ''B''], iter = 1, currFrameNum = 1\<rparr> =
     Inr \<lparr>frames = [''A'', ''B''], iter = 2, currFrameNum = 2\<rparr> \<and>
   defined \<lparr>frames = [''A'', ''B''], iter = 2, currFrameNum = 2\<rparr> =
     (False, \<lparr>frames = [''A'', ''B''], iter = 2, currFrameNum = 2\<rparr>) \<and>
   createNewFrameFromSceneAfterCurrentFrame ''X''
       \<lparr>frames = [''A'', ''B''], iter = 2, currFrameNum = 2\<rparr> =
     Inr (\<lparr>frames = [''A'', ''B'', ''X''], iter = 0, currFrameNum = 0\<rparr>, [''A''])"
  by (simp add: script_defs prim_defs)

subsection \<open>C8: \<^verbatim>\<open>interpolate\<close> leaves the store as it is\<close>

text \<open>
  C8: when \<^verbatim>\<open>interpolate(alpha)\<close> returns, the frames, the iterator and
  \<^verbatim>\<open>currFrameNum\<close> are what they were; and it does return whenever its four lookups are
  in range, that is, when the cursor has an element before it and two after it.
\<close>

theorem interpolate_leaves_store:
  "(interpolate fi alpha s = Inr (s', out) \<longrightarrow> s' = s) \<and>
   (0 < iter s \<and> iter s + 2 < length (frames s) \<longrightarrow>
      interpolate fi alpha s =
        Inr (s, [fi (frames s ! (iter s - 1)) (frames s ! iter s)
                    (frames s ! (iter s + 1)) (frames s ! (iter s + 2)) alpha]))"
  by (simp add: interpolate_Inr_iff)

theorem interpolate_leaves_store_witness:
  "interpolate nearest_frame (3 / 4)
      \<lparr>frames = [''A'', ''B'', ''C'', ''D''], iter = 1, currFrameNum = 1\<rparr> =
     Inr (\<lparr>frames = [''A'', ''B'', ''C'', ''D''], iter = 1, currFrameNum = 1\<rparr>, [''C''])"
  using interpolate_leaves_store
    [of nearest_frame "3 / 4" "\<lparr>frames = [''A'', ''B'', ''C'', ''D''], iter = 1, currFrameNum = 1\<rparr>"]
  by (simp add: nearest_frame_def)

subsection \<open>C9: advancing, then regressing\<close>

text \<open>
  C9 says that \<^verbatim>\<open>advanceCurrentFrame()\<close> followed by \<^verbatim>\<open>regressCurrentFrame()\<close> leaves
  the cursor where it was whenever the cursor is defined and not on the last element.
  Deleting \<open>C\<close> from \<open>[A, B, C, D]\<close> leaves the cursor on \<open>B\<close>, which is not the last
  element, with the ordinal 2. There the advance is refused, since 2 is not below
  \<^verbatim>\<open>frames.size() - 1\<close>, and the regress moves the cursor to \<open>A\<close>. The store is
  reachable (\<open>reachable_drifted\<close>). While the ordinal is the position of the cursor,
  the two calls do cancel (\<open>advance_then_regress_consistent\<close>).
\<close>

theorem advance_regress_after_delete:
  "deleteCurrentFrame \<lparr>frames = [''A'', ''B'', ''C'', ''D''], iter = 2, currFrameNum = 2\<rparr> =
     Inr (\<lparr>frames = [''A'', ''B'', ''D''], iter = 1, currFrameNum = 2\<rparr>, [''B'']) \<and>
   advanceCurrentFrame \<lparr>frames = [''A'', ''B'', ''D''], iter = 1, currFrameNum = 2\<rparr> =
     Inr (\<lparr>frames = [''A'', ''B'', ''D''], iter = 1, currFrameNum = 2\<rparr>, []) \<and>
   regressCurrentFrame \<lparr>frames = [''A'', ''B'', ''D''], iter = 1, currFrameNum = 2\<rparr> =
     Inr (\<lparr>frames = [''A'', ''B'', ''D''], iter = 0, currFrameNum = 1\<rparr>, [''A''])"
  by (simp add: script_defs prim_defs)

subsection \<open>C10: loading a script\<close>

text \<open>
  C10: \<^verbatim>\<open>loadScriptFromFile\<close> on a name that cannot be opened returns the empty store,
  with count 0 and the cursor undefined, and no fault. On a file that opens, with no
  more lines than the \<^verbatim>\<open>int\<close> loop counter can count, it returns a store whose frames are
  the deserialized lines in file order, with the iterator at \<^verbatim>\<open>begin()\<close> and
  \<^verbatim>\<open>currFrameNum\<close> 0; when there is a frame the cursor is defined and stands on the frame
  of the first line. The lines of a file made of newline-terminated lines are these
  lines.
\<close>

theorem loadScriptFromFile_result:
  fixes deserialize :: "string \<Rightarrow> 'f"
  shows
  "(files filename = None \<longrightarrow>
      loadScriptFromFile files deserialize filename = Inr Script_empty \<and>
      getNumberOfKeyframes (Script_empty :: 'f script) = 0 \<and>
      \<not> fst (defined (Script_empty :: 'f script))) \<and>
   (\<forall>contents. files filename = Some contents \<and>
        int (length (read_lines contents [])) \<le> INT_MAX \<longrightarrow>
      (\<exists>s. loadScriptFromFile files deserialize filename = Inr s \<and>
           frames s = map deserialize (read_lines contents []) \<and>
           iter s = list_begin (frames s) \<and> currFrameNum s = 0 \<and>
           (if frames s = [] then \<not> fst (defined s)
            else fst (defined s) \<and>
                 it_deref (frames s) (iter s) = Inr (deserialize (hd (read_lines contents [])))))) \<and>
   (\<forall>ls. (\<forall>l \<in> set ls. newline \<notin> set l) \<longrightarrow>
      read_lines (concat (map (\<lambda>l. l @ [newline]) ls)) [] = ls)"
proof (intro conjI allI impI)
  assume "files filename = None"
  then show "loadScriptFromFile files deserialize filename = Inr (Script_empty :: 'f script)"
    by (simp add: loadScriptFromFile_def)
next
  show "getNumberOfKeyframes (Script_empty :: 'f script) = 0"
    by (simp add: script_defs prim_defs)
next
  show "\<not> fst (defined (Script_empty :: 'f script))"
    by (simp add: script_defs prim_defs)
next
  fix contents
  assume a: "files filename = Some contents \<and> int (length (read_lines contents [])) \<le> INT_MAX"
  let ?fs = "map deserialize (read_lines contents [])"
  have "loadScriptFromFile files deserialize filename = Inr (Script_from ?fs)"
    using a by (simp add: loadScriptFromFile_def load_loop_all bind_res_def)
  moreover have "?fs \<noteq> [] \<Longrightarrow> hd ?fs = deserialize (hd (read_lines contents []))"
    by (simp add: hd_map)
  ultimately show "\<exists>s. loadScriptFromFile files deserialize filename = Inr s \<and>
           frames s = map deserialize (read_lines contents []) \<and>
           iter s = list_begin (frames s) \<and> currFrameNum s = 0 \<and>
           (if frames s = [] then \<not> fst (defined s)
            else fst (defined s) \<and>
                 it_deref (frames s) (iter s) = Inr (deserialize (hd (read_lines contents []))))"
    by (intro exI [of _ "Script_from ?fs"])
       (auto simp: Script_from_def defined_eq list_begin_def it_deref_def hd_conv_nth)
next
  fix ls :: "string list"
  assume "\<forall>l \<in> set ls. newline \<notin> set l"
  then show "read_lines (concat (map (\<lambda>l. l @ [newline]) ls)) [] = ls"
    using read_lines_terminated [of ls "[]"] by simp
qed

theorem loadScriptFromFile_result_witness:
  "loadScriptFromFile (Map.empty(''script.script'' \<mapsto> ''A'' @ [newline] @ ''B'' @ [newline]))
       id ''missing.script'' = Inr Script_empty \<and>
   loadScriptFromFile (Map.empty(''script.script'' \<mapsto> ''A'' @ [newline] @ ''B'' @ [newline]))
       id ''script.script'' = Inr \<lparr>frames = [''A'', ''B''], iter = 0, currFrameNum = 0\<rparr> \<and>
   fst (defined \<lparr>frames = [''A'', ''B''], iter = 0, currFrameNum = 0\<rparr>)"
proof -
  let ?c = "''A'' @ [newline] @ ''B'' @ [newline]"
  let ?files = "Map.empty(''script.script'' \<mapsto> ?c)"
  have rl: "read_lines ?c [] = [''A'', ''B'']"
    using read_lines_terminated [of "[''A'', ''B'']" "[]"] by (simp add: newline_def)
  have m: "?files ''missing.script'' = None" by simp
  have "int (length (read_lines ?c [])) \<le> INT_MAX"
    unfolding rl by (simp add: INT_MAX_def)
  moreover have "?files ''script.script'' = Some ?c" by simp
  ultimately have p: "?files ''script.script'' = Some ?c \<and>
      int (length (read_lines ?c [])) \<le> INT_MAX" by (rule conjI [rotated])
  from loadScriptFromFile_result [of ?files "''missing.script''" id] m
  have 1: "loadScriptFromFile ?files id ''missing.script'' = Inr Script_empty" by blast
  from loadScriptFromFile_result [of ?files "''script.script''" id] p
  obtain s where s: "loadScriptFromFile ?files id ''script.script'' = Inr s"
    "frames s = map id (read_lines ?c [])"
    "iter s = list_begin (frames s)" "currFrameNum s = 0"
    "if frames s = [] then \<not> fst (defined s) else fst (defined s) \<and>
       it_deref (frames s) (iter s) = Inr (id (hd (read_lines ?c [])))"
    by blast
  from s(2) have fs: "frames s = [''A'', ''B'']" unfolding rl by simp
  with s(3,4) have eq: "s = \<lparr>frames = [''A'', ''B''], iter = 0, currFrameNum = 0\<rparr>"
    by (cases s) (simp add: list_begin_def)
  from s(5) fs have "fst (defined s)" by simp
  with s(1) 1 show ?thesis unfolding eq by blast
qed

end
